theory Spec2Isabelle
  imports Complex_Main "HOL-Library.AList" "HOL-Library.Log_Nat"
begin

section \<open>EdgeCheck: the daily latency histogram and its percentile queries\<close>

text \<open>
  The worker keeps one aggregate per UTC day in a key-value store: a sample count, a
  histogram of round-trip times over fixed bucket edges, and a per-location count and
  sum. This theory embeds \<^verbatim>\<open>bucketIndex\<close>, \<^verbatim>\<open>percentileFromHist\<close>,
  \<^verbatim>\<open>recordRun\<close> and \<^verbatim>\<open>getPercentile\<close> and proves what the
  specification says about them.

  Conventions of the embedding.
  \<^item> A JavaScript \<^verbatim>\<open>number\<close> is \<open>NaN\<close>, one of the two infinities, or a finite
    value, written as the rational it denotes; counts, edges and the results of
    \<^verbatim>\<open>Math.round\<close> are integers. The sign of zero is not modelled.
  \<^item> A sum, a product and a quotient are rounded as the engine rounds them: \<open>fl\<close> gives
    the IEEE 754 double nearest to a rational. A value that enters a function is taken
    to be a double already.
  \<^item> \<^verbatim>\<open>null\<close> and \<^verbatim>\<open>undefined\<close> are \<open>None\<close>.
  \<^item> An object used as a dictionary is an association list in insertion order. A lookup
    that finds no own entry still finds the members every object inherits from
    \<^verbatim>\<open>Object.prototype\<close>. Every call starts with \<^verbatim>\<open>Object.prototype\<close> as the
    engine provides it.
\<close>

subsection \<open>Numbers\<close>

datatype 'a number = NaN | NegInf | Num 'a | PosInf

text \<open>The comparison \<^verbatim>\<open>a <= b\<close>: false as soon as one side is \<open>NaN\<close>.\<close>

fun number_le :: "'a::linorder number \<Rightarrow> 'a number \<Rightarrow> bool" where
  "number_le NaN _ = False"
| "number_le _ NaN = False"
| "number_le NegInf _ = True"
| "number_le _ PosInf = True"
| "number_le (Num a) (Num b) = (a \<le> b)"
| "number_le (Num a) NegInf = False"
| "number_le PosInf (Num b) = False"
| "number_le PosInf NegInf = False"

text \<open>
  \<^verbatim>\<open>Math.round\<close> gives the nearest integer, a tie going up, and leaves \<open>NaN\<close> and
  the infinities as they are; \<open>round x\<close> is \<open>\<lfloor>x + 1 / 2\<rfloor>\<close>. \<^verbatim>\<open>Math.ceil\<close> is the
  ceiling.
\<close>

fun Math_round :: "rat number \<Rightarrow> int number" where
  "Math_round (Num x) = Num (round x)"
| "Math_round NaN = NaN"
| "Math_round NegInf = NegInf"
| "Math_round PosInf = PosInf"

subsection \<open>Double arithmetic\<close>

text \<open>
  A finite double is \<open>m * 2 ^ e\<close> with an integer \<open>m\<close> of at most 53 bits and
  \<open>e \<ge> - 1074\<close>. \<open>nearest_f64 x\<close> is the value of that form nearest to \<open>x\<close>: the
  exponent is the one that leaves 53 bits before the binary point (not below \<open>- 1074\<close>,
  where the subnormal numbers are), and the significand is rounded to the nearest integer,
  a tie going to the even one. \<open>fl\<close> adds the overflow: a result of magnitude \<open>2 ^ 1024\<close> is
  an infinity.
\<close>

definition pow2 :: "int \<Rightarrow> rat" where
  "pow2 e = (if 0 \<le> e then 2 ^ nat e else 1 / 2 ^ nat (- e))"

text \<open>\<open>ilog2 a\<close> is the \<open>k\<close> with \<open>2 ^ k \<le> a < 2 ^ (k + 1)\<close>, for a positive \<open>a\<close>.\<close>

definition ilog2 :: "rat \<Rightarrow> int" where
  "ilog2 a = (if 1 \<le> a then bitlen \<lfloor>a\<rfloor> - 1 else - bitlen (\<lceil>1 / a\<rceil> - 1))"

definition round_half_even :: "rat \<Rightarrow> int" where
  "round_half_even y =
     (let f = \<lfloor>y\<rfloor>; r = y - of_int f
      in if r < 1 / 2 then f else if 1 / 2 < r then f + 1 else if even f then f else f + 1)"

definition nearest_f64 :: "rat \<Rightarrow> rat" where
  "nearest_f64 x =
     (if x = 0 then 0
      else let e = max (ilog2 \<bar>x\<bar> - 52) (- 1074)
           in sgn x * of_int (round_half_even (\<bar>x\<bar> / pow2 e)) * pow2 e)"

definition fl :: "rat \<Rightarrow> rat number" where
  "fl x = (let v = nearest_f64 x
           in if 2 ^ 1024 \<le> v then PosInf else if v \<le> - (2 ^ 1024) then NegInf else Num v)"

text \<open>The operators \<^verbatim>\<open>+\<close>, \<^verbatim>\<open>*\<close> and \<^verbatim>\<open>/\<close> on numbers.\<close>

fun f64_add :: "rat number \<Rightarrow> rat number \<Rightarrow> rat number" where
  "f64_add (Num a) (Num b) = fl (a + b)"
| "f64_add NaN _ = NaN"
| "f64_add _ NaN = NaN"
| "f64_add PosInf NegInf = NaN"
| "f64_add NegInf PosInf = NaN"
| "f64_add PosInf _ = PosInf"
| "f64_add _ PosInf = PosInf"
| "f64_add NegInf _ = NegInf"
| "f64_add _ NegInf = NegInf"

fun f64_mul :: "rat number \<Rightarrow> rat number \<Rightarrow> rat number" where
  "f64_mul (Num a) (Num b) = fl (a * b)"
| "f64_mul NaN _ = NaN"
| "f64_mul _ NaN = NaN"
| "f64_mul PosInf (Num b) = (if b = 0 then NaN else if 0 < b then PosInf else NegInf)"
| "f64_mul NegInf (Num b) = (if b = 0 then NaN else if 0 < b then NegInf else PosInf)"
| "f64_mul (Num a) PosInf = (if a = 0 then NaN else if 0 < a then PosInf else NegInf)"
| "f64_mul (Num a) NegInf = (if a = 0 then NaN else if 0 < a then NegInf else PosInf)"
| "f64_mul PosInf PosInf = PosInf"
| "f64_mul NegInf NegInf = PosInf"
| "f64_mul PosInf NegInf = NegInf"
| "f64_mul NegInf PosInf = NegInf"

text \<open>A zero divisor is taken as \<open>+0\<close>; the source divides by \<open>100\<close> and by a positive count.\<close>

fun f64_div :: "rat number \<Rightarrow> rat number \<Rightarrow> rat number" where
  "f64_div (Num a) (Num b) =
     (if b = 0 then (if a = 0 then NaN else if 0 < a then PosInf else NegInf) else fl (a / b))"
| "f64_div NaN _ = NaN"
| "f64_div _ NaN = NaN"
| "f64_div (Num a) PosInf = Num 0"
| "f64_div (Num a) NegInf = Num 0"
| "f64_div PosInf (Num b) = (if 0 \<le> b then PosInf else NegInf)"
| "f64_div NegInf (Num b) = (if 0 \<le> b then NegInf else PosInf)"
| "f64_div PosInf _ = NaN"
| "f64_div NegInf _ = NaN"

fun Math_ceil :: "rat number \<Rightarrow> rat number" where
  "Math_ceil (Num x) = Num (of_int \<lceil>x\<rceil>)"
| "Math_ceil NaN = NaN"
| "Math_ceil NegInf = NegInf"
| "Math_ceil PosInf = PosInf"

text \<open>
  The double nearest to an integer is an integer. \<open>f64_int\<close> is used for a sum of two
  integers that cannot be infinite: one added to a double. The integers up to \<open>2 ^ 53\<close> in
  magnitude are doubles.
\<close>

definition f64_int :: "int \<Rightarrow> int" where
  "f64_int n = \<lfloor>nearest_f64 (of_int n)\<rfloor>"

definition safe_int :: "int \<Rightarrow> bool" where
  "safe_int n = (\<bar>n\<bar> \<le> 2 ^ 53)"

subsection \<open>Bucket lookup\<close>

text \<open>
  \<^verbatim>\<open>
  function bucketIndex(rtt: number, edges: number[]) {
    for (let i = 0; i < edges.length; i++) {
      if (rtt <= edges[i]) return i;
    }
    return edges.length; // overflow bucket
  }
  \<close>
  The loop is a recursion over the edges not yet visited, \<open>i\<close> being the index of the
  first of them; when none is left, \<open>i\<close> is \<^verbatim>\<open>edges.length\<close>.
\<close>

fun bucketIndex_from :: "nat \<Rightarrow> int number \<Rightarrow> int list \<Rightarrow> nat" where
  "bucketIndex_from i rtt [] = i"
| "bucketIndex_from i rtt (e # es) =
     (if number_le rtt (Num e) then i else bucketIndex_from (Suc i) rtt es)"

definition bucketIndex :: "int number \<Rightarrow> int list \<Rightarrow> nat" where
  "bucketIndex rtt edges = bucketIndex_from 0 rtt edges"

text \<open>The specification's edges are ascending; as for the default edges, strictly so.\<close>

definition ascending :: "int list \<Rightarrow> bool" where
  "ascending edges = sorted_wrt (<) edges"

subsection \<open>Percentile from a histogram\<close>

text \<open>
  \<^verbatim>\<open>
  function percentileFromHist(samples, buckets, edges, targetPct): number | null {
    if (samples <= 0) return null;
    const targetRank = Math.ceil((targetPct / 100) * samples);
    let acc = 0;
    for (let i = 0; i < buckets.length; i++) {
      acc += buckets[i];
      if (acc >= targetRank) {
        if (i < edges.length) return edges[i];
        return edges[edges.length - 1] + 1;
      }
    }
    return null;
  }
  \<close>
  \<open>percentileFromHist_f64\<close> is the function as the engine evaluates it: the quotient, the
  product and every sum are doubles. \<open>percentile_walk_f64\<close> is the loop: \<open>i\<close> and \<open>acc\<close>
  are its two variables, the list holds the buckets from index \<open>i\<close> on. With no edge at all,
  \<^verbatim>\<open>edges[edges.length - 1]\<close> is \<^verbatim>\<open>undefined\<close> and \<^verbatim>\<open>undefined + 1\<close> is \<open>NaN\<close>.
\<close>

definition edge_past_last_f64 :: "int list \<Rightarrow> int number" where
  "edge_past_last_f64 edges = (if edges = [] then NaN else Num (f64_int (last edges + 1)))"

fun percentile_walk_f64 ::
  "rat number \<Rightarrow> int list \<Rightarrow> nat \<Rightarrow> rat number \<Rightarrow> int list \<Rightarrow> int number option" where
  "percentile_walk_f64 targetRank edges i acc [] = None"
| "percentile_walk_f64 targetRank edges i acc (b # bs) =
     (if number_le targetRank (f64_add acc (Num (of_int b)))
      then (if i < length edges then Some (Num (edges ! i))
            else Some (edge_past_last_f64 edges))
      else percentile_walk_f64 targetRank edges (Suc i) (f64_add acc (Num (of_int b))) bs)"

definition percentileFromHist_f64 :: "int \<Rightarrow> int list \<Rightarrow> int list \<Rightarrow> rat \<Rightarrow> int number option" where
  "percentileFromHist_f64 samples buckets edges targetPct =
     (if samples \<le> 0 then None
      else percentile_walk_f64
             (Math_ceil (f64_mul (f64_div (Num targetPct) (Num 100)) (Num (of_int samples))))
             edges 0 (Num 0) buckets)"

text \<open>The value a bucket stands for: its upper edge, or the value past the last edge.\<close>

definition bucket_upper_f64 :: "int list \<Rightarrow> nat \<Rightarrow> int number" where
  "bucket_upper_f64 edges i =
     (if i < length edges then Num (edges ! i) else edge_past_last_f64 edges)"

text \<open>
  The cumulative count of the first buckets, added up in order as the loop does, and the
  first index at which it reaches a rank.
\<close>

definition f64_sum :: "int list \<Rightarrow> rat number" where
  "f64_sum xs = foldl (\<lambda>acc b. f64_add acc (Num (of_int b))) (Num 0) xs"

definition first_reaching_f64 :: "rat number \<Rightarrow> int list \<Rightarrow> nat option" where
  "first_reaching_f64 targetRank buckets =
     find (\<lambda>i. number_le targetRank (f64_sum (take (Suc i) buckets))) [0..<length buckets]"

text \<open>
  \<open>percentileFromHist\<close> is the same function over exact numbers: no quotient, product or
  sum is rounded. The order of the percentiles is stated for it, and then shown for
  \<open>percentileFromHist_f64\<close> as well.
\<close>






subsection \<open>The stored aggregate\<close>

text \<open>
  \<^verbatim>\<open>
  type Stored = {
    samples: number;
    buckets: number[];
    bucketEdges: number[];
    colo: Record<string, { count: number; sumRtt: number; country?: string }>;
  };
  \<close>
  The aggregate is read from and written to JSON text. Two fields can hold \<^verbatim>\<open>null\<close>
  there: an element of \<^verbatim>\<open>buckets\<close> (a hole left by an assignment past the end of the
  array is written as \<^verbatim>\<open>null\<close>) and \<^verbatim>\<open>sumRtt\<close> (an infinite sum is written as
  \<^verbatim>\<open>null\<close>). Read back, \<^verbatim>\<open>null\<close> counts as \<open>0\<close> in an addition. A number
  written to JSON is read back as the same double.
\<close>

record colo_stats =
  count :: int
  sumRtt :: "int option"
  country :: "string option"

record Stored =
  samples :: int
  buckets :: "int option list"
  bucketEdges :: "int list"
  colo :: "(string \<times> colo_stats) list"

definition DEFAULT_EDGES :: "int list" where
  "DEFAULT_EDGES = [5, 10, 15, 20, 30, 40, 60, 80, 100, 120, 150, 200, 300, 500, 1000]"

text \<open>The aggregate both operations fall back to when the store has nothing for the day.\<close>

definition fresh_stored :: Stored where
  "fresh_stored =
     \<lparr>samples = 0, buckets = replicate (length DEFAULT_EDGES + 1) (Some 0),
      bucketEdges = DEFAULT_EDGES, colo = []\<rparr>"

text \<open>\<^verbatim>\<open>a ?? b\<close>, the numeric value of a JSON number or \<^verbatim>\<open>null\<close>, and array access.\<close>

definition nullish_or :: "'a option \<Rightarrow> 'a \<Rightarrow> 'a" where
  "nullish_or a b = (case a of None \<Rightarrow> b | Some v \<Rightarrow> v)"

definition to_number :: "int option \<Rightarrow> int" where
  "to_number a = (case a of None \<Rightarrow> 0 | Some v \<Rightarrow> v)"

definition array_get :: "'a option list \<Rightarrow> nat \<Rightarrow> 'a option" where
  "array_get xs i = (if i < length xs then xs ! i else None)"

text \<open>\<^verbatim>\<open>xs[i] = v\<close>: past the end, the array grows to length \<open>i + 1\<close> with holes between.\<close>

definition array_set :: "'a option list \<Rightarrow> nat \<Rightarrow> 'a \<Rightarrow> 'a option list" where
  "array_set xs i v =
     (if i < length xs then xs[i := Some v]
      else xs @ replicate (i - length xs) None @ [Some v])"

text \<open>
  \<^verbatim>\<open>c.sumRtt += Math.round(edgeRtt)\<close> as it is written back: the sum is a double, and one
  that is not finite is serialised as \<^verbatim>\<open>null\<close>.
\<close>

definition add_rounded :: "int option \<Rightarrow> int number \<Rightarrow> int option" where
  "add_rounded s r =
     (case r of
        Num x \<Rightarrow> (case fl (of_int (to_number s + x)) of Num v \<Rightarrow> Some \<lfloor>v\<rfloor> | _ \<Rightarrow> None)
      | _ \<Rightarrow> None)"

text \<open>
  \<^verbatim>\<open>stored.colo[loc]\<close> reads a property: the aggregate's own entry if it has one, and
  otherwise, for the names below, the member that every object inherits from
  \<^verbatim>\<open>Object.prototype\<close> (eleven functions and, for \<^verbatim>\<open>__proto__\<close>, the prototype
  itself), none of which is \<^verbatim>\<open>null\<close> or \<^verbatim>\<open>undefined\<close>.
\<close>

definition Object_prototype_names :: "string list" where
  "Object_prototype_names =
     [''constructor'', ''__defineGetter__'', ''__defineSetter__'', ''hasOwnProperty'',
      ''__lookupGetter__'', ''__lookupSetter__'', ''isPrototypeOf'', ''propertyIsEnumerable'',
      ''toString'', ''valueOf'', ''__proto__'', ''toLocaleString'']"

datatype property = Own colo_stats | Inherited | Missing

definition get_property :: "(string \<times> colo_stats) list \<Rightarrow> string \<Rightarrow> property" where
  "get_property obj k =
     (case map_of obj k of
        Some v \<Rightarrow> Own v
      | None \<Rightarrow> if k \<in> set Object_prototype_names then Inherited else Missing)"

subsection \<open>The key-value store\<close>

text \<open>
  The store maps a key to a text. Every reader does
  \<^verbatim>\<open>storedStr ? JSON.parse(storedStr) : { samples: 0, ... }\<close>, so a text is one of three
  things to the program: the empty string (falsy, so the default is taken), a text that
  \<^verbatim>\<open>JSON.parse\<close> rejects by throwing \<^verbatim>\<open>SyntaxError\<close>, or the JSON of an aggregate.
  JSON of any other shape is outside the model, and so is a failing store.
\<close>

datatype stored_text = EmptyText | NotJson | Json Stored

type_synonym kv = "string \<Rightarrow> stored_text option"

datatype error = SyntaxError

definition load_stored :: "kv \<Rightarrow> string \<Rightarrow> error + Stored" where
  "load_stored env k =
     (case env k of
        None \<Rightarrow> Inr fresh_stored
      | Some EmptyText \<Rightarrow> Inr fresh_stored
      | Some NotJson \<Rightarrow> Inl SyntaxError
      | Some (Json s) \<Rightarrow> Inr s)"

text \<open>
  \<^verbatim>\<open>todayKey()\<close> reads the clock; the day it returns is a parameter here, and the key is
  \<^verbatim>\<open>`stats:${day}`\<close>.
\<close>

definition stats_key :: "string \<Rightarrow> string" where
  "stats_key d = ''stats:'' @ d"

text \<open>The two fields of \<^verbatim>\<open>request.cf\<close> that the aggregate uses.\<close>

record Cf =
  cf_colo :: "string option"
  cf_country :: "string option"

text \<open>The location used when \<^verbatim>\<open>cf.colo\<close> is missing: an em dash (U+2014, here in UTF-8).\<close>

definition unknown_colo :: string where
  "unknown_colo = [CHR 0xE2, CHR 0x80, CHR 0x94]"


subsection \<open>Recording a sample\<close>

text \<open>
  \<^verbatim>\<open>
  async function recordRun(env: Env, cf: Cf, edgeRtt?: number) {
    if (edgeRtt == null || Number.isNaN(edgeRtt)) return;
    const day = todayKey();
    const key = `stats:${day}`;
    const storedStr = await env.EDGE_STATS.get(key);
    const stored: Stored = storedStr ? JSON.parse(storedStr) : { ... };
    stored.samples += 1;
    const idx = bucketIndex(Math.round(edgeRtt), stored.bucketEdges);
    stored.buckets[idx] = (stored.buckets[idx] ?? 0) + 1;
    const c = stored.colo[cf.colo ?? "<em dash>"] ?? { count: 0, sumRtt: 0, country: cf.country };
    c.count += 1;
    c.sumRtt += Math.round(edgeRtt);
    c.country = cf.country;
    stored.colo[cf.colo ?? "<em dash>"] = c;
    await env.EDGE_STATS.put(key, JSON.stringify(stored));
  }
  \<close>
  The result is the store after the call, or the error the call ends with.

  When the location has no own entry and names an inherited member, \<open>c\<close> is that member:
  the three updates are made on it, the assignment stores a function (or, for
  \<^verbatim>\<open>__proto__\<close>, sets the prototype to what it is), and \<^verbatim>\<open>JSON.stringify\<close> leaves a
  function out. The location entries are then written back as they were.
\<close>

definition record_sample :: "Stored \<Rightarrow> Cf \<Rightarrow> rat number \<Rightarrow> Stored" where
  "record_sample stored cf edgeRtt =
     (let idx = bucketIndex (Math_round edgeRtt) (bucketEdges stored);
          loc = nullish_or (cf_colo cf) unknown_colo;
          updated = (\<lambda>c. \<lparr>count = f64_int (count c + 1),
                           sumRtt = add_rounded (sumRtt c) (Math_round edgeRtt),
                           country = cf_country cf\<rparr>)
      in stored
           \<lparr>samples := f64_int (samples stored + 1),
            buckets := array_set (buckets stored) idx
                         (f64_int (nullish_or (array_get (buckets stored) idx) 0 + 1)),
            colo := (case get_property (colo stored) loc of
                       Own c \<Rightarrow> AList.update loc (updated c) (colo stored)
                     | Missing \<Rightarrow>
                         AList.update loc
                           (updated \<lparr>count = 0, sumRtt = Some 0, country = cf_country cf\<rparr>)
                           (colo stored)
                     | Inherited \<Rightarrow> colo stored)\<rparr>)"

definition recordRun :: "kv \<Rightarrow> string \<Rightarrow> Cf \<Rightarrow> rat number option \<Rightarrow> error + kv" where
  "recordRun env d cf edgeRtt =
     (case edgeRtt of
        None \<Rightarrow> Inr env
      | Some r \<Rightarrow>
          if r = NaN then Inr env
          else (case load_stored env (stats_key d) of
                  Inl e \<Rightarrow> Inl e
                | Inr stored \<Rightarrow>
                    Inr (env (stats_key d \<mapsto> Json (record_sample stored cf r)))))"


subsection \<open>Ranking a sample\<close>

text \<open>
  \<^verbatim>\<open>
  async function getPercentile(env: Env, edgeRtt?: number) {
    if (edgeRtt == null || Number.isNaN(edgeRtt)) return null;
    const day = todayKey();
    const key = `stats:${day}`;
    const storedStr = await env.EDGE_STATS.get(key);
    const stored: Stored = storedStr ? JSON.parse(storedStr) : { ... };
    const idx = bucketIndex(Math.round(edgeRtt), stored.bucketEdges);
    let countLe = 0;
    for (let i = 0; i < stored.buckets.length; i++) {
      if (i < idx) countLe += stored.buckets[i];
      else if (i === idx) countLe += stored.buckets[i]; // bucket approx
    }
    const fasterThan = stored.samples > 0
      ? Math.max(0, Math.min(100, Math.round((countLe / stored.samples) * 100))) : 0;
    return { fasterThanPct: fasterThan, samples: stored.samples, day };
  }
  \<close>
  \<open>countLe\<close> is a running sum of doubles. The clamp \<^verbatim>\<open>Math.max(0, Math.min(100, r))\<close>
  takes \<open>+Infinity\<close> to \<open>100\<close> and \<open>-Infinity\<close> to \<open>0\<close>; it would leave \<open>NaN\<close>, which a
  running sum of finite numbers divided by a positive count is not (\<open>percent_not_NaN\<close>
  below), so the value given to \<open>clamp_pct NaN\<close> is never used.
\<close>

fun countLe_loop :: "nat \<Rightarrow> nat \<Rightarrow> rat number \<Rightarrow> int option list \<Rightarrow> rat number" where
  "countLe_loop idx i countLe [] = countLe"
| "countLe_loop idx i countLe (b # bs) =
     countLe_loop idx (Suc i)
       (if i < idx then f64_add countLe (Num (of_int (to_number b)))
        else if i = idx then f64_add countLe (Num (of_int (to_number b)))
        else countLe) bs"

fun clamp_pct :: "int number \<Rightarrow> int" where
  "clamp_pct (Num r) = max 0 (min 100 r)"
| "clamp_pct PosInf = 100"
| "clamp_pct NegInf = 0"
| "clamp_pct NaN = 0"

record percentile_result =
  fasterThanPct :: int
  result_samples :: int
  result_day :: string

definition getPercentile :: "kv \<Rightarrow> string \<Rightarrow> rat number option \<Rightarrow> error + percentile_result option" where
  "getPercentile env d edgeRtt =
     (case edgeRtt of
        None \<Rightarrow> Inr None
      | Some r \<Rightarrow>
          if r = NaN then Inr None
          else (case load_stored env (stats_key d) of
                  Inl e \<Rightarrow> Inl e
                | Inr stored \<Rightarrow>
                    (let idx = bucketIndex (Math_round r) (bucketEdges stored);
                         countLe = countLe_loop idx 0 (Num 0) (buckets stored);
                         fasterThan =
                           (if samples stored > 0
                            then clamp_pct (Math_round
                                   (f64_mul (f64_div countLe (Num (of_int (samples stored))))
                                      (Num 100)))
                            else 0)
                     in Inr (Some \<lparr>fasterThanPct = fasterThan,
                                    result_samples = samples stored,
                                    result_day = d\<rparr>))))"

subsection \<open>The conservation invariant\<close>







subsection \<open>Reading the specification\<close>








section \<open>Properties of the double arithmetic\<close>

lemma round_half_even_of_int: "round_half_even (of_int k) = k"
  by (simp add: round_half_even_def)

lemma bitlen_le_54:
  assumes "0 < k" and "k \<le> 2 ^ 53"
  shows "bitlen k \<le> 54"
proof -
  from bitlen_bounds [OF assms(1)] have "(2::int) ^ nat (bitlen k - 1) \<le> k" by simp
  with assms(2) have "(2::int) ^ nat (bitlen k - 1) \<le> 2 ^ 53" by simp
  with power_le_imp_le_exp [of "2::int" "nat (bitlen k - 1)" 53]
  have "nat (bitlen k - 1) \<le> 53" by simp
  then show ?thesis by simp
qed

lemma bitlen_54:
  assumes "0 < k" and "k \<le> 2 ^ 53" and "bitlen k = 54"
  shows "k = 2 ^ 53"
proof -
  from bitlen_bounds [OF assms(1)] assms(3) have "(2::int) ^ 53 \<le> k" by simp
  with assms(2) show ?thesis by simp
qed

lemma nearest_f64_pos_int:
  assumes "0 < k" and "k \<le> 2 ^ 53"
  shows "nearest_f64 (of_int k) = of_int k"
proof -
  from assms(1) have b1: "1 \<le> bitlen k"
    using bitlen_eq_zero_iff [of k] bitlen_nonneg [of k] by linarith
  have b54: "bitlen k \<le> 54" using assms by (rule bitlen_le_54)
  have il: "ilog2 (rat_of_int k) = bitlen k - 1"
    using assms(1) by (simp add: ilog2_def)
  have e: "max (ilog2 (rat_of_int k) - 52) (- 1074) = bitlen k - 53"
    using b1 by (simp add: il)
  show ?thesis
  proof (cases "bitlen k = 54")
    case True
    with assms have k: "k = 2 ^ 53" by (rule bitlen_54)
    have "rat_of_int (2 ^ 53) / 2 = of_int (2 ^ 52)" by simp
    then have "round_half_even (rat_of_int (2 ^ 53) / 2) = 2 ^ 52"
      by (simp only: round_half_even_of_int)
    with True e k assms(1) show ?thesis
      by (simp add: nearest_f64_def pow2_def Let_def)
  next
    case False
    with b54 have le: "bitlen k - 53 \<le> 0" by simp
    define j where "j = nat (53 - bitlen k)"
    have j: "- (bitlen k - 53) = int j" using le by (simp add: j_def)
    have p: "pow2 (bitlen k - 53) = 1 / 2 ^ j"
    proof (cases "bitlen k = 53")
      case True
      then show ?thesis by (simp add: pow2_def j_def)
    next
      case False
      with le have "\<not> 0 \<le> bitlen k - 53" by simp
      then show ?thesis using j by (simp add: pow2_def)
    qed
    have "rat_of_int k * 2 ^ j = of_int (k * 2 ^ j)" by simp
    then have r: "round_half_even (rat_of_int k * 2 ^ j) = k * 2 ^ j"
      by (simp only: round_half_even_of_int)
    from assms(1) have "nearest_f64 (of_int k) = of_int (k * 2 ^ j) * (1 / 2 ^ j)"
      by (simp add: nearest_f64_def Let_def e p r del: of_int_mult)
    then show ?thesis by simp
  qed
qed

lemma nearest_f64_minus: "nearest_f64 (- x) = - nearest_f64 x"
  by (simp add: nearest_f64_def Let_def sgn_minus)

lemma nearest_f64_int:
  assumes "safe_int n"
  shows "nearest_f64 (of_int n) = of_int n"
proof (cases "n = 0")
  case True
  then show ?thesis by (simp add: nearest_f64_def)
next
  case False
  show ?thesis
  proof (cases "0 < n")
    case True
    with assms show ?thesis by (simp add: safe_int_def nearest_f64_pos_int)
  next
    case neg: False
    with False assms have "0 < - n" and "- n \<le> 2 ^ 53" by (simp_all add: safe_int_def)
    then have "nearest_f64 (of_int (- n)) = of_int (- n)" by (rule nearest_f64_pos_int)
    then show ?thesis by (simp add: nearest_f64_minus)
  qed
qed


lemma fl_int:
  assumes "safe_int n"
  shows "fl (of_int n) = Num (of_int n)"
proof -
  from assms have "- (2 ^ 53) \<le> n" and "n \<le> 2 ^ 53" by (simp_all add: safe_int_def)
  then have "- (2 ^ 53) \<le> rat_of_int n" and "rat_of_int n \<le> 2 ^ 53"
    by (metis of_int_le_iff of_int_minus of_int_numeral of_int_power)+
  moreover have "(2::rat) ^ 53 < 2 ^ 1024" by simp
  ultimately have "\<not> 2 ^ 1024 \<le> rat_of_int n" and "\<not> rat_of_int n \<le> - (2 ^ 1024)"
    by linarith+
  then show ?thesis using assms by (simp add: fl_def nearest_f64_int)
qed

lemma fl_not_NaN: "fl x \<noteq> NaN"
  by (simp add: fl_def Let_def)

lemma fl_cases: "fl x = NegInf \<or> fl x = PosInf \<or> (\<exists>v. fl x = Num v)"
  by (simp add: fl_def Let_def)

lemma fl_0: "fl 0 = Num 0"
  by (simp add: fl_def nearest_f64_def)

lemma fl_1: "fl 1 = Num 1"
  using fl_int [of 1] by (simp add: safe_int_def)

text \<open>
  Rounding to the nearest double keeps the order. The proof compares the exponents of the
  two doubles: with the same exponent the significands are in order, and a number with a
  smaller exponent rounds to at most the power of two where the larger exponent starts.
\<close>

lemma pow2_powi: "pow2 e = 2 powi e"
  by (simp add: pow2_def power_int_def field_simps)

lemma pow2_pos: "0 < pow2 e"
  by (simp add: pow2_powi)

lemma pow2_add: "pow2 (a + b) = pow2 a * pow2 b"
  by (simp add: pow2_powi power_int_add)

lemma pow2_mono: "a \<le> b \<Longrightarrow> pow2 a \<le> pow2 b"
  by (simp add: pow2_powi power_int_increasing)

lemma pow2_less_cancel: "pow2 a < pow2 b \<Longrightarrow> a < b"
proof (rule ccontr)
  assume lt: "pow2 a < pow2 b" and "\<not> a < b"
  then have "b \<le> a" by simp
  then have "pow2 b \<le> pow2 a" by (rule pow2_mono)
  with lt show False by simp
qed

lemma ilog2_bounds:
  assumes "0 < a"
  shows "pow2 (ilog2 a) \<le> a \<and> a < pow2 (ilog2 a + 1)"
proof (cases "1 \<le> a")
  case True
  define k where "k = \<lfloor>a\<rfloor>"
  from True have k1: "1 \<le> k" by (simp add: k_def)
  then have k0: "0 < k" by simp
  from bitlen_bounds [OF k0] have lo: "2 ^ nat (bitlen k - 1) \<le> k" and hi: "k < 2 ^ nat (bitlen k)"
    by simp_all
  from k0 have b1: "1 \<le> bitlen k"
    using bitlen_eq_zero_iff [of k] bitlen_nonneg [of k] by linarith
  have il: "ilog2 a = bitlen k - 1" using True by (simp add: ilog2_def k_def)
  have "pow2 (bitlen k - 1) = 2 ^ nat (bitlen k - 1)" using b1 by (simp add: pow2_def)
  also have "\<dots> = rat_of_int (2 ^ nat (bitlen k - 1))" by simp
  also have "\<dots> \<le> rat_of_int k" using lo by (simp only: of_int_le_iff)
  also have "\<dots> \<le> a" by (simp add: k_def)
  finally have l: "pow2 (ilog2 a) \<le> a" by (simp add: il)
  from hi have "k + 1 \<le> 2 ^ nat (bitlen k)" by simp
  then have "rat_of_int (k + 1) \<le> rat_of_int (2 ^ nat (bitlen k))" by (simp only: of_int_le_iff)
  then have "rat_of_int k + 1 \<le> 2 ^ nat (bitlen k)" by simp
  moreover have "a < rat_of_int k + 1" using floor_correct [of a] by (simp add: k_def)
  moreover have "pow2 (bitlen k) = 2 ^ nat (bitlen k)" using b1 by (simp add: pow2_def)
  ultimately have "a < pow2 (ilog2 a + 1)" by (simp add: il)
  with l show ?thesis by simp
next
  case False
  define b where "b = 1 / a"
  define c where "c = \<lceil>b\<rceil> - 1"
  from False assms have b1: "1 < b" by (simp add: b_def)
  then have "2 \<le> \<lceil>b\<rceil>" by linarith
  then have c0: "0 < c" by (simp add: c_def)
  have cb: "rat_of_int c < b" by (simp add: c_def) linarith
  have bc: "b \<le> rat_of_int c + 1" by (simp add: c_def)
  from bitlen_bounds [OF c0] have lo: "2 ^ nat (bitlen c - 1) \<le> c" and hi: "c < 2 ^ nat (bitlen c)"
    by simp_all
  from c0 have bl: "1 \<le> bitlen c"
    using bitlen_eq_zero_iff [of c] bitlen_nonneg [of c] by linarith
  have il: "ilog2 a = - bitlen c" using False by (simp add: ilog2_def c_def b_def)
  have ab: "1 / b = a" using assms by (simp add: b_def)
  from b1 have bpos: "0 < b" by simp
  from hi have "c + 1 \<le> 2 ^ nat (bitlen c)" by simp
  then have "rat_of_int (c + 1) \<le> rat_of_int (2 ^ nat (bitlen c))" by (simp only: of_int_le_iff)
  then have "rat_of_int c + 1 \<le> 2 ^ nat (bitlen c)" by simp
  with bc have "b \<le> 2 ^ nat (bitlen c)" by simp
  with bpos have "1 / 2 ^ nat (bitlen c) \<le> 1 / b" by (simp add: frac_le)
  then have "1 / 2 ^ nat (bitlen c) \<le> a" by (simp only: ab)
  moreover have "pow2 (- bitlen c) = 1 / 2 ^ nat (bitlen c)" using bl by (simp add: pow2_def)
  ultimately have l: "pow2 (ilog2 a) \<le> a" by (simp only: il)
  from lo have "rat_of_int (2 ^ nat (bitlen c - 1)) \<le> rat_of_int c" by (simp only: of_int_le_iff)
  then have "(2::rat) ^ nat (bitlen c - 1) \<le> rat_of_int c" by simp
  with cb have lt: "(2::rat) ^ nat (bitlen c - 1) < b" by (rule le_less_trans [rotated])
  have "(0::rat) < 2 ^ nat (bitlen c - 1)" by simp
  with lt have "1 / b < 1 / 2 ^ nat (bitlen c - 1)" by (simp add: frac_less2)
  then have "a < 1 / 2 ^ nat (bitlen c - 1)" by (simp only: ab)
  moreover have "pow2 (- bitlen c + 1) = 1 / 2 ^ nat (bitlen c - 1)"
  proof (cases "bitlen c = 1")
    case True
    then show ?thesis by (simp add: pow2_def)
  next
    case False
    with bl have "\<not> 0 \<le> - bitlen c + 1" by simp
    moreover have "nat (- (- bitlen c + 1)) = nat (bitlen c - 1)" by simp
    ultimately show ?thesis by (simp add: pow2_def)
  qed
  ultimately have "a < pow2 (ilog2 a + 1)" by (simp only: il)
  with l show ?thesis by simp
qed

lemma ilog2_mono:
  assumes "0 < x" and "x \<le> y"
  shows "ilog2 x \<le> ilog2 y"
proof -
  from assms have y: "0 < y" by simp
  from ilog2_bounds [OF assms(1)] have "pow2 (ilog2 x) \<le> x" by simp
  also note assms(2)
  also from ilog2_bounds [OF y] have "y < pow2 (ilog2 y + 1)" by simp
  finally have "ilog2 x < ilog2 y + 1" by (rule pow2_less_cancel)
  then show ?thesis by simp
qed

lemma round_half_even_floor: "\<lfloor>y\<rfloor> \<le> round_half_even y"
  by (simp add: round_half_even_def Let_def)

lemma round_half_even_le_Suc: "round_half_even y \<le> \<lfloor>y\<rfloor> + 1"
  by (simp add: round_half_even_def Let_def)

lemma round_half_even_lower:
  assumes "of_int k \<le> y"
  shows "k \<le> round_half_even y"
proof -
  from assms have "k \<le> \<lfloor>y\<rfloor>" by (simp add: le_floor_iff)
  with round_half_even_floor [of y] show ?thesis by simp
qed

lemma round_half_even_upper:
  assumes "y \<le> of_int k"
  shows "round_half_even y \<le> k"
proof (cases "y = of_int k")
  case True
  then show ?thesis by (simp add: round_half_even_of_int)
next
  case False
  with assms have "y < of_int k" by simp
  then have "\<lfloor>y\<rfloor> < k" by (simp add: floor_less_iff)
  with round_half_even_le_Suc [of y] show ?thesis by simp
qed

lemma round_half_even_mono:
  assumes "a \<le> b"
  shows "round_half_even a \<le> round_half_even b"
proof (cases "\<lfloor>a\<rfloor> = \<lfloor>b\<rfloor>")
  case True
  from assms have "a - of_int \<lfloor>a\<rfloor> \<le> b - of_int \<lfloor>a\<rfloor>" by simp
  with True show ?thesis by (auto simp: round_half_even_def Let_def)
next
  case False
  from assms have "\<lfloor>a\<rfloor> \<le> \<lfloor>b\<rfloor>" by (rule floor_mono)
  with False have "\<lfloor>a\<rfloor> + 1 \<le> \<lfloor>b\<rfloor>" by simp
  with round_half_even_le_Suc [of a] round_half_even_floor [of b] show ?thesis by simp
qed

lemma nearest_f64_pos:
  "0 < x \<Longrightarrow> e = max (ilog2 x - 52) (- 1074) \<Longrightarrow>
     nearest_f64 x = of_int (round_half_even (x / pow2 e)) * pow2 e"
  by (simp add: nearest_f64_def Let_def)

lemma nearest_f64_upper:
  assumes "0 < x" and "e = max (ilog2 x - 52) (- 1074)"
  shows "nearest_f64 x \<le> pow2 (e + 53)"
proof -
  have "ilog2 x + 1 \<le> e + 53" by (simp add: assms(2))
  then have "pow2 (ilog2 x + 1) \<le> pow2 (e + 53)" by (rule pow2_mono)
  with ilog2_bounds [OF assms(1)] have "x < pow2 (e + 53)" by simp
  then have "x < pow2 53 * pow2 e" by (simp add: pow2_add mult.commute)
  then have "x / pow2 e < pow2 53" using pow2_pos [of e] by (simp add: pos_divide_less_eq)
  then have "x / pow2 e \<le> of_int (2 ^ 53)" by (simp add: pow2_def)
  then have "round_half_even (x / pow2 e) \<le> 2 ^ 53" by (rule round_half_even_upper)
  then have "rat_of_int (round_half_even (x / pow2 e)) \<le> rat_of_int (2 ^ 53)"
    by (simp only: of_int_le_iff)
  then have "rat_of_int (round_half_even (x / pow2 e)) \<le> pow2 53" by (simp add: pow2_def)
  then have "rat_of_int (round_half_even (x / pow2 e)) * pow2 e \<le> pow2 53 * pow2 e"
    using pow2_pos [of e] by (simp add: mult_right_mono)
  then have "rat_of_int (round_half_even (x / pow2 e)) * pow2 e \<le> pow2 (e + 53)"
    by (simp add: pow2_add mult.commute)
  then show ?thesis by (simp only: nearest_f64_pos [OF assms])
qed

lemma nearest_f64_lower:
  assumes "0 < y" and "e = max (ilog2 y - 52) (- 1074)" and "- 1074 < e"
  shows "pow2 (e + 52) \<le> nearest_f64 y"
proof -
  from assms(2,3) have "e + 52 = ilog2 y" by (simp add: max_def split: if_splits)
  with ilog2_bounds [OF assms(1)] have "pow2 (e + 52) \<le> y" by simp
  then have "pow2 52 * pow2 e \<le> y" by (simp add: pow2_add mult.commute)
  then have "pow2 52 \<le> y / pow2 e" using pow2_pos [of e] by (simp add: pos_le_divide_eq)
  then have "of_int (2 ^ 52) \<le> y / pow2 e" by (simp add: pow2_def)
  then have "2 ^ 52 \<le> round_half_even (y / pow2 e)" by (rule round_half_even_lower)
  then have "rat_of_int (2 ^ 52) \<le> rat_of_int (round_half_even (y / pow2 e))"
    by (simp only: of_int_le_iff)
  then have "pow2 52 \<le> rat_of_int (round_half_even (y / pow2 e))" by (simp add: pow2_def)
  then have "pow2 52 * pow2 e \<le> rat_of_int (round_half_even (y / pow2 e)) * pow2 e"
    using pow2_pos [of e] by (simp add: mult_right_mono)
  then have "pow2 (e + 52) \<le> rat_of_int (round_half_even (y / pow2 e)) * pow2 e"
    by (simp add: pow2_add mult.commute)
  then show ?thesis by (simp only: nearest_f64_pos [OF assms(1,2)])
qed

lemma nearest_f64_mono_pos:
  assumes "0 < x" and "x \<le> y"
  shows "nearest_f64 x \<le> nearest_f64 y"
proof -
  define ex where "ex = max (ilog2 x - 52) (- 1074)"
  define ey where "ey = max (ilog2 y - 52) (- 1074)"
  from assms have y: "0 < y" by simp
  from ilog2_mono [OF assms] have ee: "ex \<le> ey" by (simp add: ex_def ey_def)
  show ?thesis
  proof (cases "ex = ey")
    case True
    then have exy: "ey = max (ilog2 x - 52) (- 1074)" by (simp add: ex_def)
    from assms(2) have "x / pow2 ey \<le> y / pow2 ey"
      using pow2_pos [of ey] by (simp add: divide_right_mono)
    then have "round_half_even (x / pow2 ey) \<le> round_half_even (y / pow2 ey)"
      by (rule round_half_even_mono)
    then have "rat_of_int (round_half_even (x / pow2 ey))
        \<le> rat_of_int (round_half_even (y / pow2 ey))" by (simp only: of_int_le_iff)
    then have "rat_of_int (round_half_even (x / pow2 ey)) * pow2 ey
        \<le> rat_of_int (round_half_even (y / pow2 ey)) * pow2 ey"
      using pow2_pos [of ey] by (simp add: mult_right_mono)
    then show ?thesis
      by (simp only: nearest_f64_pos [OF assms(1) exy] nearest_f64_pos [OF y ey_def])
  next
    case False
    with ee have lt: "ex + 1 \<le> ey" by simp
    have "- 1074 \<le> ex" by (simp add: ex_def)
    with lt have sub: "- 1074 < ey" by simp
    have "nearest_f64 x \<le> pow2 (ex + 53)" using assms(1) ex_def by (rule nearest_f64_upper)
    also have "\<dots> \<le> pow2 (ey + 52)" using lt by (intro pow2_mono) simp
    also have "\<dots> \<le> nearest_f64 y" using y ey_def sub by (rule nearest_f64_lower)
    finally show ?thesis .
  qed
qed

lemma nearest_f64_nonneg: "0 \<le> x \<Longrightarrow> 0 \<le> nearest_f64 x"
proof (cases "x = 0")
  case True
  then show ?thesis by (simp add: nearest_f64_def)
next
  case False
  define e where "e = max (ilog2 x - 52) (- 1074)"
  assume "0 \<le> x"
  with False have x: "0 < x" by simp
  have "0 \<le> x / pow2 e" using x pow2_pos [of e] by simp
  then have "(of_int 0 :: rat) \<le> x / pow2 e" by simp
  then have "0 \<le> round_half_even (x / pow2 e)" by (rule round_half_even_lower)
  then have "0 \<le> rat_of_int (round_half_even (x / pow2 e))" by simp
  then have "0 \<le> rat_of_int (round_half_even (x / pow2 e)) * pow2 e"
    using pow2_pos [of e] by simp
  then show ?thesis by (simp only: nearest_f64_pos [OF x e_def])
qed

lemma nearest_f64_mono:
  assumes "x \<le> y"
  shows "nearest_f64 x \<le> nearest_f64 y"
proof (cases "0 < x")
  case True
  then show ?thesis using assms by (rule nearest_f64_mono_pos)
next
  case False
  then have x: "x \<le> 0" by simp
  show ?thesis
  proof (cases "0 \<le> y")
    case True
    from x have "0 \<le> - x" by simp
    then have "0 \<le> nearest_f64 (- x)" by (rule nearest_f64_nonneg)
    then have "nearest_f64 x \<le> 0" by (simp add: nearest_f64_minus)
    also have "0 \<le> nearest_f64 y" using True by (rule nearest_f64_nonneg)
    finally show ?thesis .
  next
    case False
    then have "0 < - y" by simp
    moreover from assms have "- y \<le> - x" by simp
    ultimately have "nearest_f64 (- y) \<le> nearest_f64 (- x)" by (rule nearest_f64_mono_pos)
    then show ?thesis by (simp add: nearest_f64_minus)
  qed
qed

lemma fl_mono: "x \<le> y \<Longrightarrow> number_le (fl x) (fl y)"
  using nearest_f64_mono [of x y] by (simp add: fl_def Let_def)

lemma f64_int_mono: "a \<le> b \<Longrightarrow> f64_int a \<le> f64_int b"
  unfolding f64_int_def by (intro floor_mono nearest_f64_mono) simp

lemma fl_unit:
  assumes "0 \<le> q" and "q \<le> 1"
  shows "\<exists>v. fl q = Num v \<and> 0 \<le> v \<and> v \<le> 1"
proof -
  from fl_mono [OF assms(1)] have lo: "number_le (Num 0) (fl q)" by (simp add: fl_0)
  from fl_mono [OF assms(2)] have hi: "number_le (fl q) (Num 1)" by (simp add: fl_1)
  from fl_cases [of q] lo hi show ?thesis by auto
qed

lemma number_le_trans: "number_le a b \<Longrightarrow> number_le b c \<Longrightarrow> number_le a c"
  by (cases a; cases b; cases c) simp_all

lemma number_le_NegInf: "b \<noteq> NaN \<Longrightarrow> number_le NegInf b"
  by (cases b) simp_all

lemma number_le_PosInf: "a \<noteq> NaN \<Longrightarrow> number_le a PosInf"
  by (cases a) simp_all

lemma f64_mul_mono:
  assumes "number_le a b" and "0 < n"
  shows "number_le (f64_mul a (Num n)) (f64_mul b (Num n))"
proof (cases a)
  case NaN
  with assms(1) show ?thesis by simp
next
  case NegInf
  with assms show ?thesis
    by (cases b) (simp_all add: number_le_NegInf fl_not_NaN)
next
  case (Num x)
  show ?thesis
  proof (cases b)
    case (Num y)
    with \<open>a = Num x\<close> assms have "x * n \<le> y * n" by (simp add: mult_right_mono)
    then have "number_le (fl (x * n)) (fl (y * n))" by (rule fl_mono)
    with Num \<open>a = Num x\<close> show ?thesis by simp
  next
    case PosInf
    with \<open>a = Num x\<close> assms show ?thesis by (simp add: number_le_PosInf fl_not_NaN)
  next
    case NaN
    with \<open>a = Num x\<close> assms show ?thesis by simp
  next
    case NegInf
    with \<open>a = Num x\<close> assms show ?thesis by simp
  qed
next
  case PosInf
  with assms show ?thesis by (cases b) simp_all
qed

lemma Math_ceil_mono: "number_le a b \<Longrightarrow> number_le (Math_ceil a) (Math_ceil b)"
  by (cases a; cases b) (simp_all add: ceiling_mono)

text \<open>Facts for evaluating the rounding on numerals.\<close>

lemma floor_rat_numeral: "\<lfloor>(numeral a :: rat) / numeral b\<rfloor> = numeral a div numeral b"
  using floor_divide_of_int_eq [of "numeral a" "numeral b", where ?'a = rat] by simp

lemma ceiling_rat_numeral: "\<lceil>(numeral a :: rat) / numeral b\<rceil> = - (- numeral a div numeral b)"
  using ceiling_divide_eq_div [of "numeral a" "numeral b", where ?'a = rat] by simp

lemmas f64_eval = fl_def nearest_f64_def ilog2_def pow2_def round_half_even_def Let_def
  compute_bitlen floor_rat_numeral ceiling_rat_numeral

section \<open>Properties of the bucket lookup\<close>

lemma bucketIndex_from_shift:
  "bucketIndex_from i rtt es = i + bucketIndex_from 0 rtt es"
proof (induction es arbitrary: i)
  case Nil
  show ?case by simp
next
  case (Cons e es)
  have "bucketIndex_from (Suc i) rtt es = Suc i + bucketIndex_from 0 rtt es"
    by (rule Cons.IH)
  moreover have "bucketIndex_from (Suc 0) rtt es = Suc 0 + bucketIndex_from 0 rtt es"
    by (rule Cons.IH)
  ultimately show ?case by simp
qed

lemma bucketIndex_Nil: "bucketIndex rtt [] = 0"
  by (simp add: bucketIndex_def)

lemma bucketIndex_Cons:
  "bucketIndex rtt (e # es) = (if number_le rtt (Num e) then 0 else Suc (bucketIndex rtt es))"
  using bucketIndex_from_shift [of "Suc 0" rtt es] by (simp add: bucketIndex_def)

lemma bucketIndex_le_length: "bucketIndex rtt edges \<le> length edges"
  by (induction edges) (simp_all add: bucketIndex_Nil bucketIndex_Cons)

text \<open>
  C8 (bucket monotonicity): for every edge sequence and integers \<open>r1 \<le> r2\<close>, the bucket
  of \<open>r1\<close> is not after the bucket of \<open>r2\<close>.
\<close>

theorem bucketIndex_mono:
  "r1 \<le> r2 \<Longrightarrow> bucketIndex (Num r1) edges \<le> bucketIndex (Num r2) edges"
  by (induction edges) (auto simp: bucketIndex_Nil bucketIndex_Cons)

theorem bucketIndex_mono_witness:
  "(7::int) \<le> 12 \<and> bucketIndex (Num 7) [5, 10, 15] = 1 \<and> bucketIndex (Num 12) [5, 10, 15] = 2
     \<and> bucketIndex (Num 7) [5, 10, 15] \<le> bucketIndex (Num 12) [5, 10, 15]"
  using bucketIndex_mono [of 7 12 "[5, 10, 15]"] by (simp add: bucketIndex_def)

lemma bucketIndex_before:
  "i < bucketIndex (Num r) edges \<Longrightarrow> edges ! i < r"
proof (induction edges arbitrary: i)
  case Nil
  then show ?case by (simp add: bucketIndex_Nil)
next
  case (Cons e es)
  show ?case
  proof (cases "r \<le> e")
    case True
    with Cons.prems show ?thesis by (simp add: bucketIndex_Cons)
  next
    case False
    show ?thesis
    proof (cases i)
      case 0
      with False show ?thesis by simp
    next
      case (Suc j)
      with Cons.prems False have "j < bucketIndex (Num r) es"
        by (simp add: bucketIndex_Cons)
      then have "es ! j < r" by (rule Cons.IH)
      with Suc show ?thesis by simp
    qed
  qed
qed

lemma bucketIndex_at:
  "bucketIndex (Num r) edges < length edges \<Longrightarrow> r \<le> edges ! bucketIndex (Num r) edges"
  by (induction edges) (auto simp: bucketIndex_Nil bucketIndex_Cons)

lemma bucketIndex_least:
  assumes "i < length edges" and "r \<le> edges ! i"
  shows "bucketIndex (Num r) edges = (LEAST j. j < length edges \<and> r \<le> edges ! j)"
proof -
  let ?k = "bucketIndex (Num r) edges"
  have "\<not> i < ?k" using bucketIndex_before [of i r edges] assms(2) by auto
  then have k: "?k < length edges" using assms(1) by simp
  show ?thesis
  proof (rule Least_equality [symmetric])
    show "?k < length edges \<and> r \<le> edges ! ?k" using k bucketIndex_at by simp
  next
    fix j assume "j < length edges \<and> r \<le> edges ! j"
    then show "?k \<le> j" using bucketIndex_before [of j r edges] by force
  qed
qed

lemma bucketIndex_none:
  assumes "\<forall>i<length edges. edges ! i < r"
  shows "bucketIndex (Num r) edges = length edges"
proof (rule ccontr)
  assume "bucketIndex (Num r) edges \<noteq> length edges"
  with bucketIndex_le_length [of "Num r" edges]
  have k: "bucketIndex (Num r) edges < length edges" by simp
  from bucketIndex_at [OF k] assms k show False by force
qed

lemma bucketIndex_edge:
  assumes "ascending edges" and "i < length edges"
  shows "bucketIndex (Num (edges ! i)) edges = i"
proof -
  let ?k = "bucketIndex (Num (edges ! i)) edges"
  have le: "\<not> i < ?k" using bucketIndex_before [of i "edges ! i" edges] by auto
  then have k: "?k < length edges" using assms(2) by simp
  have "\<not> ?k < i"
  proof
    assume "?k < i"
    with assms have "edges ! ?k < edges ! i"
      by (simp add: ascending_def sorted_wrt_nth_less)
    with bucketIndex_at [OF k] show False by simp
  qed
  with le show ?thesis by simp
qed

lemma ascending_le_last:
  assumes "ascending edges" and "i < length edges"
  shows "edges ! i \<le> last edges"
proof (cases "i = length edges - 1")
  case True
  from assms(2) have "edges \<noteq> []" by auto
  with True show ?thesis by (simp add: last_conv_nth)
next
  case False
  from assms(2) have ne: "edges \<noteq> []" by auto
  from False assms(2) have "i < length edges - 1" by simp
  with assms have "edges ! i < edges ! (length edges - 1)"
    by (simp add: ascending_def sorted_wrt_nth_less)
  with ne show ?thesis by (simp add: last_conv_nth)
qed

lemma bucketIndex_overflow:
  assumes "ascending edges"
  shows "bucketIndex (Num (last edges + 1)) edges = length edges"
proof (rule bucketIndex_none)
  show "\<forall>i<length edges. edges ! i < last edges + 1"
    using ascending_le_last [OF assms] by fastforce
qed

text \<open>
  C2 (bucket lookup): for an integer round-trip time and ascending edges, \<open>bucketIndex\<close> is
  the smallest index whose edge is at least the round-trip time, and the number of edges
  when no edge is; an edge value falls in its own bucket (the upper bound is inclusive),
  and the last edge plus one falls in the overflow bucket.
\<close>

theorem bucketIndex_smallest:
  assumes "ascending edges"
  shows "((\<exists>i<length edges. r \<le> edges ! i) \<longrightarrow>
            bucketIndex (Num r) edges = (LEAST i. i < length edges \<and> r \<le> edges ! i))
       \<and> ((\<forall>i<length edges. edges ! i < r) \<longrightarrow> bucketIndex (Num r) edges = length edges)
       \<and> (\<forall>i<length edges. bucketIndex (Num (edges ! i)) edges = i)
       \<and> (edges \<noteq> [] \<longrightarrow> bucketIndex (Num (last edges + 1)) edges = length edges)"
  using assms bucketIndex_least bucketIndex_none bucketIndex_edge bucketIndex_overflow
  by blast

theorem bucketIndex_smallest_witness:
  "ascending [5, 10, 15]
     \<and> (\<exists>i<length [5, 10, 15 :: int]. (7::int) \<le> [5, 10, 15] ! i)
     \<and> bucketIndex (Num 7) [5, 10, 15] = 1
     \<and> (LEAST i. i < length [5, 10, 15 :: int] \<and> (7::int) \<le> [5, 10, 15] ! i) = 1
     \<and> bucketIndex (Num 10) [5, 10, 15] = 1
     \<and> bucketIndex (Num 16) [5, 10, 15] = 3"
proof -
  have a: "ascending [5, 10, 15]" by (simp add: ascending_def)
  have e: "\<exists>i<length [5, 10, 15 :: int]. (7::int) \<le> [5, 10, 15] ! i"
    by (rule exI [of _ 1]) simp
  have f: "\<forall>i<length [5, 10, 15 :: int]. [5, 10, 15] ! i < (16::int)"
    by (simp add: less_Suc_eq numeral_3_eq_3)
  have b: "bucketIndex (Num 7) [5, 10, 15] = 1" by (simp add: bucketIndex_def)
  from bucketIndex_smallest [OF a, of 7] bucketIndex_smallest [OF a, of 16] e f b a
  show ?thesis by (simp add: bucketIndex_def)
qed

section \<open>Properties of the percentile\<close>

lemma find_mapped:
  "find P (map f xs) = map_option f (find (\<lambda>x. P (f x)) xs)"
  by (induction xs) simp_all

lemma find_upt_Suc:
  "find P [0..<Suc n] = (if P 0 then Some 0 else map_option Suc (find (\<lambda>j. P (Suc j)) [0..<n]))"
proof -
  have "[0..<Suc n] = 0 # map Suc [0..<n]"
    by (simp add: upt_conv_Cons map_Suc_upt del: upt_Suc)
  then show ?thesis by (simp add: find_mapped del: upt_Suc)
qed

lemma percentile_walk_f64_find:
  "percentile_walk_f64 tr edges i acc bs =
     map_option (\<lambda>j. bucket_upper_f64 edges (i + j))
       (find (\<lambda>j. number_le tr (foldl (\<lambda>a b. f64_add a (Num (of_int b))) acc (take (Suc j) bs)))
          [0..<length bs])"
proof (induction bs arbitrary: i acc)
  case Nil
  show ?case by simp
next
  case (Cons b bs)
  show ?case
  proof (cases "number_le tr (f64_add acc (Num (of_int b)))")
    case True
    then show ?thesis by (simp add: find_upt_Suc bucket_upper_f64_def del: upt_Suc)
  next
    case False
    have "percentile_walk_f64 tr edges i acc (b # bs)
            = percentile_walk_f64 tr edges (Suc i) (f64_add acc (Num (of_int b))) bs"
      using False by simp
    also have "\<dots> = map_option (\<lambda>j. bucket_upper_f64 edges (Suc i + j))
        (find (\<lambda>j. number_le tr (foldl (\<lambda>a b. f64_add a (Num (of_int b)))
                 (f64_add acc (Num (of_int b))) (take (Suc j) bs))) [0..<length bs])"
      by (rule Cons.IH)
    finally show ?thesis using False
      by (simp add: find_upt_Suc option.map_comp comp_def del: upt_Suc)
  qed
qed

lemma foldl_f64_exact:
  "0 \<le> a \<Longrightarrow> \<forall>x \<in> set xs. 0 \<le> x \<Longrightarrow> a + sum_list xs \<le> 2 ^ 53 \<Longrightarrow>
     foldl (\<lambda>a b. f64_add a (Num (of_int b))) (Num (of_int a)) xs = Num (of_int (a + sum_list xs))"
proof (induction xs arbitrary: a)
  case Nil
  show ?case by simp
next
  case (Cons x xs)
  from Cons.prems have x: "0 \<le> x" and rest: "\<forall>y \<in> set xs. 0 \<le> y" by simp_all
  from rest have s: "0 \<le> sum_list xs" by (simp add: sum_list_nonneg)
  from Cons.prems(1) x have ax: "0 \<le> a + x" by simp
  from Cons.prems(3) s have "a + x \<le> 2 ^ 53" by simp
  with ax have "safe_int (a + x)" by (simp add: safe_int_def)
  then have "fl (of_int (a + x)) = Num (of_int (a + x))" by (rule fl_int)
  then have step: "f64_add (Num (of_int a)) (Num (of_int x)) = Num (of_int (a + x))" by simp
  from Cons.prems(3) have "(a + x) + sum_list xs \<le> 2 ^ 53" by simp
  with ax rest have "foldl (\<lambda>a b. f64_add a (Num (of_int b))) (Num (of_int (a + x))) xs
      = Num (of_int ((a + x) + sum_list xs))" by (rule Cons.IH)
  with step show ?case by (simp add: add.assoc)
qed

lemma f64_sum_exact:
  assumes "\<forall>x \<in> set xs. 0 \<le> x" and "sum_list xs \<le> 2 ^ 53"
  shows "f64_sum xs = Num (of_int (sum_list xs))"
  using foldl_f64_exact [of 0 xs] assms by (simp add: f64_sum_def)







lemma targetRank_f64_le_samples:
  assumes "0 < nsamples" and "safe_int nsamples" and "0 \<le> targetPct" and "targetPct \<le> 100"
  shows "number_le (Math_ceil (f64_mul (f64_div (Num targetPct) (Num 100)) (Num (of_int nsamples))))
           (Num (of_int nsamples))"
proof -
  have "0 \<le> targetPct / 100" and "targetPct / 100 \<le> 1" using assms(3,4) by simp_all
  then obtain q where q: "fl (targetPct / 100) = Num q" and q0: "0 \<le> q" and q1: "q \<le> 1"
    using fl_unit by blast
  have "q * rat_of_int nsamples \<le> 1 * rat_of_int nsamples"
    using q1 assms(1) by (intro mult_right_mono) simp_all
  then have "q * rat_of_int nsamples \<le> rat_of_int nsamples" by simp
  then have le: "number_le (fl (q * rat_of_int nsamples)) (Num (rat_of_int nsamples))"
    using fl_mono [of "q * rat_of_int nsamples" "rat_of_int nsamples"] fl_int [OF assms(2)] by simp
  have "0 \<le> q * rat_of_int nsamples" using q0 assms(1) by simp
  then have "number_le (Num 0) (fl (q * rat_of_int nsamples))"
    using fl_mono [of 0 "q * rat_of_int nsamples"] by (simp add: fl_0)
  with le fl_cases [of "q * rat_of_int nsamples"]
  obtain r where r: "fl (q * rat_of_int nsamples) = Num r" and rn: "r \<le> rat_of_int nsamples"
    by auto
  from rn have "\<lceil>r\<rceil> \<le> nsamples" by (simp add: ceiling_le_iff)
  then have "rat_of_int \<lceil>r\<rceil> \<le> rat_of_int nsamples" by (simp only: of_int_le_iff)
  with q r show ?thesis by simp
qed

lemma first_reaching_f64_total:
  assumes "counts \<noteq> []" and "number_le tr (f64_sum counts)"
  shows "first_reaching_f64 tr counts \<noteq> None"
proof -
  let ?i = "length counts - 1"
  from assms(1) have i: "?i \<in> set [0..<length counts]" by simp
  from assms(1) have "take (Suc ?i) counts = counts" by simp
  with assms(2) have "number_le tr (f64_sum (take (Suc ?i) counts))" by simp
  with i show ?thesis unfolding first_reaching_f64_def find_None_iff by blast
qed

lemma percentileFromHist_f64_first:
  "0 < nsamples \<Longrightarrow>
     (percentileFromHist_f64 nsamples counts edges targetPct = None) =
     (first_reaching_f64
        (Math_ceil (f64_mul (f64_div (Num targetPct) (Num 100)) (Num (of_int nsamples)))) counts = None)"
  by (simp add: percentileFromHist_f64_def percentile_walk_f64_find first_reaching_f64_def
      f64_sum_def)

text \<open>
  C10 (the walk finds a bucket), with the sums the engine computes: with at least one
  sample, a percentage between 0 and 100 and bucket counts that are not negative and add up
  to at least the number of samples and at most \<open>2 ^ 53\<close>, the target rank is at most the
  number of samples and the result is not \<^verbatim>\<open>null\<close>.
\<close>

theorem percentileFromHist_f64_not_null:
  assumes "0 < nsamples" and "0 \<le> targetPct" and "targetPct \<le> 100"
    and "nsamples \<le> sum_list counts"
    and "\<forall>c \<in> set counts. 0 \<le> c" and "sum_list counts \<le> 2 ^ 53"
  shows "number_le (Math_ceil (f64_mul (f64_div (Num targetPct) (Num 100)) (Num (of_int nsamples))))
           (Num (of_int nsamples))
       \<and> percentileFromHist_f64 nsamples counts edges targetPct \<noteq> None"
proof -
  let ?tr = "Math_ceil (f64_mul (f64_div (Num targetPct) (Num 100)) (Num (of_int nsamples)))"
  from assms(1,4,6) have safe: "safe_int nsamples" by (simp add: safe_int_def)
  have tr: "number_le ?tr (Num (of_int nsamples))"
    using assms(1) safe assms(2,3) by (rule targetRank_f64_le_samples)
  have ne: "counts \<noteq> []" using assms(1,4) by auto
  have s: "f64_sum counts = Num (of_int (sum_list counts))"
    using assms(5,6) by (rule f64_sum_exact)
  from assms(4) have "number_le (Num (rat_of_int nsamples)) (f64_sum counts)" by (simp add: s)
  with tr have "number_le ?tr (f64_sum counts)" by (rule number_le_trans)
  with ne have "first_reaching_f64 ?tr counts \<noteq> None" by (rule first_reaching_f64_total)
  with assms(1) tr show ?thesis by (simp add: percentileFromHist_f64_first)
qed

theorem percentileFromHist_f64_not_null_witness:
  "(0::int) < 10 \<and> (0::rat) \<le> 99 \<and> (99::rat) \<le> 100 \<and> (10::int) \<le> sum_list [2, 3, 5]
     \<and> sum_list [2, 3, 5 :: int] \<le> 2 ^ 53
     \<and> Math_ceil (f64_mul (f64_div (Num 99) (Num 100)) (Num (of_int 10))) = Num 10
     \<and> percentileFromHist_f64 10 [2, 3, 5] [10, 20] 99 = Some (Num 21)"
proof -
  have r: "Math_ceil (f64_mul (f64_div (Num 99) (Num 100)) (Num (of_int 10))) = Num 10"
    by (simp add: f64_eval)
  have v: "percentileFromHist_f64 10 [2, 3, 5] [10, 20] 99 = Some (Num 21)"
    by (simp add: percentileFromHist_f64_def edge_past_last_f64_def f64_int_def f64_eval)
  from percentileFromHist_f64_not_null [of 10 99 "[2, 3, 5]" "[10, 20]"]
  have "percentileFromHist_f64 10 [2, 3, 5] [10, 20] 99 \<noteq> None" by simp
  with r v show ?thesis by simp
qed

text \<open>
  Without the bound on the sum the property fails. The counts \<open>2 ^ 53, 1, 1, 1, 1\<close> add up
  to \<open>2 ^ 53 + 4\<close>, which is a double, but the running sum of the loop stays at \<open>2 ^ 53\<close>:
  \<open>2 ^ 53 + 1\<close> is not a double and rounds back to \<open>2 ^ 53\<close>. With \<open>2 ^ 53 + 4\<close> samples
  the rank for 100 percent is \<open>2 ^ 53 + 4\<close>, no running sum reaches it, and the result is
  \<^verbatim>\<open>null\<close>.
\<close>

theorem percentileFromHist_f64_not_null_counterexample:
  "(0::int) < 2 ^ 53 + 4 \<and> (0::rat) \<le> 100 \<and> (100::rat) \<le> 100
     \<and> f64_int (2 ^ 53 + 4) = 2 ^ 53 + 4
     \<and> (2 ^ 53 + 4 :: int) \<le> sum_list [2 ^ 53, 1, 1, 1, 1]
     \<and> Math_ceil (f64_mul (f64_div (Num 100) (Num 100)) (Num (of_int (2 ^ 53 + 4)))) = Num (2 ^ 53 + 4)
     \<and> f64_sum [2 ^ 53, 1, 1, 1, 1] = Num (2 ^ 53)
     \<and> percentileFromHist_f64 (2 ^ 53 + 4) [2 ^ 53, 1, 1, 1, 1] [10] 100 = None"
proof -
  have a: "f64_int (2 ^ 53 + 4) = 2 ^ 53 + 4" by (simp add: f64_int_def f64_eval)
  have r: "Math_ceil (f64_mul (f64_div (Num 100) (Num 100)) (Num (of_int (2 ^ 53 + 4)))) = Num (2 ^ 53 + 4)"
    by (simp add: f64_eval)
  have s: "f64_sum [2 ^ 53, 1, 1, 1, 1] = Num (2 ^ 53)" by (simp add: f64_sum_def f64_eval)
  have n: "percentileFromHist_f64 (2 ^ 53 + 4) [2 ^ 53, 1, 1, 1, 1] [10] 100 = None"
    by (simp add: percentileFromHist_f64_def f64_eval)
  from a r s n show ?thesis by simp
qed








text \<open>
  The same order holds for the function as the engine evaluates it, when the last edge is a
  double: the rank is monotone in the percentage, since rounding to the nearest double
  keeps the order, and the last edge plus one does not round below the last edge.
\<close>

lemma targetRank_f64_mono:
  assumes "0 < nsamples" and "p1 \<le> p2"
  shows "number_le (Math_ceil (f64_mul (f64_div (Num p1) (Num 100)) (Num (of_int nsamples))))
                   (Math_ceil (f64_mul (f64_div (Num p2) (Num 100)) (Num (of_int nsamples))))"
proof -
  from assms(2) have "p1 / 100 \<le> p2 / 100" by simp
  then have "number_le (fl (p1 / 100)) (fl (p2 / 100))" by (rule fl_mono)
  then have "number_le (f64_div (Num p1) (Num 100)) (f64_div (Num p2) (Num 100))" by simp
  moreover have "0 < rat_of_int nsamples" using assms(1) by simp
  ultimately have "number_le (f64_mul (f64_div (Num p1) (Num 100)) (Num (of_int nsamples)))
      (f64_mul (f64_div (Num p2) (Num 100)) (Num (of_int nsamples)))" by (rule f64_mul_mono)
  then show ?thesis by (rule Math_ceil_mono)
qed

lemma bucket_upper_f64_mono:
  assumes "ascending edges" and "edges \<noteq> []" and "f64_int (last edges) = last edges"
    and "i \<le> j"
  shows "number_le (bucket_upper_f64 edges i) (bucket_upper_f64 edges j)"
proof (cases "j < length edges")
  case True
  with assms(4) have i: "i < length edges" by simp
  have "edges ! i \<le> edges ! j"
  proof (cases "i = j")
    case True
    then show ?thesis by simp
  next
    case False
    with assms(4) have "i < j" by simp
    with assms(1) True have "edges ! i < edges ! j"
      by (simp add: ascending_def sorted_wrt_nth_less)
    then show ?thesis by simp
  qed
  with True i show ?thesis by (simp add: bucket_upper_f64_def)
next
  case False
  show ?thesis
  proof (cases "i < length edges")
    case True
    with assms(1) have "edges ! i \<le> last edges" by (rule ascending_le_last)
    also have "last edges \<le> f64_int (last edges + 1)"
      using f64_int_mono [of "last edges" "last edges + 1"] assms(3) by simp
    finally show ?thesis using True False assms(2)
      by (simp add: bucket_upper_f64_def edge_past_last_f64_def)
  next
    case i: False
    with False assms(2) show ?thesis
      by (simp add: bucket_upper_f64_def edge_past_last_f64_def)
  qed
qed

lemma percentile_walk_f64_index:
  "percentile_walk_f64 tr edges i acc bs = Some v \<Longrightarrow> \<exists>j\<ge>i. v = bucket_upper_f64 edges j"
proof (induction bs arbitrary: i acc)
  case Nil
  then show ?case by simp
next
  case (Cons b bs)
  show ?case
  proof (cases "number_le tr (f64_add acc (Num (of_int b)))")
    case True
    with Cons.prems have "v = bucket_upper_f64 edges i"
      by (auto simp: bucket_upper_f64_def split: if_splits)
    then show ?thesis by blast
  next
    case False
    with Cons.prems have "percentile_walk_f64 tr edges (Suc i) (f64_add acc (Num (of_int b))) bs = Some v"
      by simp
    then obtain j where "Suc i \<le> j" and "v = bucket_upper_f64 edges j"
      using Cons.IH by blast
    then show ?thesis by (intro exI [of _ j]) simp
  qed
qed

lemma percentile_walk_f64_mono:
  assumes "ascending edges" and "edges \<noteq> []" and "f64_int (last edges) = last edges"
    and "number_le tr1 tr2"
  shows "percentile_walk_f64 tr1 edges i acc bs = Some v1 \<Longrightarrow>
         percentile_walk_f64 tr2 edges i acc bs = Some v2 \<Longrightarrow> number_le v1 v2"
proof (induction bs arbitrary: i acc)
  case Nil
  then show ?case by simp
next
  case (Cons b bs)
  show ?case
  proof (cases "number_le tr1 (f64_add acc (Num (of_int b)))")
    case True
    with Cons.prems(1) have v1: "v1 = bucket_upper_f64 edges i"
      by (auto simp: bucket_upper_f64_def split: if_splits)
    from Cons.prems(2) obtain j where "i \<le> j" and "v2 = bucket_upper_f64 edges j"
      using percentile_walk_f64_index by blast
    with v1 assms(1,2,3) show ?thesis by (simp add: bucket_upper_f64_mono)
  next
    case False
    with assms(4) have "\<not> number_le tr2 (f64_add acc (Num (of_int b)))"
      using number_le_trans by blast
    with False Cons.prems show ?thesis using Cons.IH by simp
  qed
qed

lemma percentileFromHist_f64_mono:
  assumes "0 < nsamples" and "ascending edges" and "edges \<noteq> []"
    and "f64_int (last edges) = last edges" and "p1 \<le> p2"
    and "percentileFromHist_f64 nsamples counts edges p1 = Some v1"
    and "percentileFromHist_f64 nsamples counts edges p2 = Some v2"
  shows "number_le v1 v2"
proof -
  let ?tr = "\<lambda>p. Math_ceil (f64_mul (f64_div (Num p) (Num 100)) (Num (of_int nsamples)))"
  have tr: "number_le (?tr p1) (?tr p2)" using assms(1,5) by (rule targetRank_f64_mono)
  from assms(1,6) have w1: "percentile_walk_f64 (?tr p1) edges 0 (Num 0) counts = Some v1"
    by (simp add: percentileFromHist_f64_def)
  from assms(1,7) have w2: "percentile_walk_f64 (?tr p2) edges 0 (Num 0) counts = Some v2"
    by (simp add: percentileFromHist_f64_def)
  from assms(2,3,4) tr w1 w2 show ?thesis by (rule percentile_walk_f64_mono)
qed

section \<open>Properties of recording and ranking\<close>












































text \<open>
  C5 (no signal), as the guard has it: a round-trip time that is missing or \<open>NaN\<close> leaves
  the store as it is and is ranked \<^verbatim>\<open>null\<close>, whatever the store holds.
\<close>

theorem invalid_sample_ignored:
  assumes "edgeRtt = None \<or> edgeRtt = Some NaN"
  shows "recordRun env d cf edgeRtt = Inr env \<and> getPercentile env d edgeRtt = Inr None"
  using assms by (auto simp: recordRun_def getPercentile_def)

theorem invalid_sample_ignored_witness:
  "recordRun (Map.empty (stats_key ''2024-05-01'' \<mapsto> NotJson)) ''2024-05-01''
       \<lparr>cf_colo = Some ''SFO'', cf_country = Some ''US''\<rparr> None
     = Inr (Map.empty (stats_key ''2024-05-01'' \<mapsto> NotJson))
   \<and> getPercentile (Map.empty (stats_key ''2024-05-01'' \<mapsto> NotJson)) ''2024-05-01'' None = Inr None
   \<and> getPercentile Map.empty ''2024-05-01'' (Some NaN) = Inr None"
  using invalid_sample_ignored [of None "Map.empty (stats_key ''2024-05-01'' \<mapsto> NotJson)"
      "''2024-05-01''" "\<lparr>cf_colo = Some ''SFO'', cf_country = Some ''US''\<rparr>"]
    invalid_sample_ignored [of "Some NaN" Map.empty "''2024-05-01''"
      "\<lparr>cf_colo = Some ''SFO'', cf_country = Some ''US''\<rparr>"]
  by simp

text \<open>
  The guard does not look at the sign: a round-trip time of \<open>-5\<close> is recorded and ranked
  like any other number.
\<close>

theorem invalid_sample_counterexample:
  "(-5 :: rat) < 0
   \<and> recordRun Map.empty ''2024-05-01'' \<lparr>cf_colo = Some ''SFO'', cf_country = Some ''US''\<rparr>
        (Some (Num (-5))) \<noteq> Inr Map.empty
   \<and> getPercentile Map.empty ''2024-05-01'' (Some (Num (-5)))
       = Inr (Some \<lparr>fasterThanPct = 0, result_samples = 0, result_day = ''2024-05-01''\<rparr>)
   \<and> getPercentile Map.empty ''2024-05-01'' (Some (Num (-5))) \<noteq> Inr None"
  by (simp add: recordRun_def getPercentile_def load_stored_def fresh_stored_def)

text \<open>
  C6 (what counts as absence): a missing value and the empty string make both operations
  fall back to the fresh aggregate and complete. A text that \<^verbatim>\<open>JSON.parse\<close> rejects
  does not: for a round-trip time that passes the guard, both operations end with the
  \<^verbatim>\<open>SyntaxError\<close>.
\<close>

theorem corrupt_aggregate_handling:
  "((env (stats_key d) = None \<or> env (stats_key d) = Some EmptyText) \<longrightarrow>
      load_stored env (stats_key d) = Inr fresh_stored
      \<and> recordRun env d cf (Some (Num x))
          = Inr (env (stats_key d \<mapsto> Json (record_sample fresh_stored cf (Num x))))
      \<and> getPercentile env d (Some (Num x))
          = Inr (Some \<lparr>fasterThanPct = 0, result_samples = 0, result_day = d\<rparr>))
   \<and> (env (stats_key d) = Some NotJson \<longrightarrow>
      recordRun env d cf (Some (Num x)) = Inl SyntaxError
      \<and> getPercentile env d (Some (Num x)) = Inl SyntaxError)"
  by (auto simp: recordRun_def getPercentile_def load_stored_def fresh_stored_def)

theorem corrupt_aggregate_handling_witness:
  "(Map.empty (stats_key ''2024-05-01'' \<mapsto> EmptyText)) (stats_key ''2024-05-01'') = Some EmptyText
   \<and> getPercentile (Map.empty (stats_key ''2024-05-01'' \<mapsto> EmptyText)) ''2024-05-01'' (Some (Num 12))
       = Inr (Some \<lparr>fasterThanPct = 0, result_samples = 0, result_day = ''2024-05-01''\<rparr>)
   \<and> (Map.empty (stats_key ''2024-05-01'' \<mapsto> NotJson)) (stats_key ''2024-05-01'') = Some NotJson
   \<and> getPercentile (Map.empty (stats_key ''2024-05-01'' \<mapsto> NotJson)) ''2024-05-01'' (Some (Num 12))
       = Inl SyntaxError"
  using corrupt_aggregate_handling [of "Map.empty (stats_key ''2024-05-01'' \<mapsto> EmptyText)"
      "''2024-05-01''" "\<lparr>cf_colo = None, cf_country = None\<rparr>" 12]
    corrupt_aggregate_handling [of "Map.empty (stats_key ''2024-05-01'' \<mapsto> NotJson)"
      "''2024-05-01''" "\<lparr>cf_colo = None, cf_country = None\<rparr>" 12]
  by simp

text \<open>
  A stored text that is not JSON is not treated as absence: nothing is loaded, and both
  operations end with the error.
\<close>

theorem corrupt_aggregate_counterexample:
  "load_stored (Map.empty (stats_key ''2024-05-01'' \<mapsto> NotJson)) (stats_key ''2024-05-01'')
     \<noteq> Inr fresh_stored
   \<and> recordRun (Map.empty (stats_key ''2024-05-01'' \<mapsto> NotJson)) ''2024-05-01''
       \<lparr>cf_colo = Some ''SFO'', cf_country = Some ''US''\<rparr> (Some (Num 12)) = Inl SyntaxError
   \<and> getPercentile (Map.empty (stats_key ''2024-05-01'' \<mapsto> NotJson)) ''2024-05-01'' (Some (Num 12))
       = Inl SyntaxError"
  by (simp add: recordRun_def getPercentile_def load_stored_def)












end
